theory Spec2Isabelle
  imports Complex_Main
begin

section \<open>Numbers, points and polygons\<close>

text \<open>
  The program is \<open>script.js\<close>: a page script over the d3 library. JavaScript numbers
  are modelled as \<open>real\<close>; a point is the two-element array \<open>[x, y]\<close>, a polygon
  the array of vertices that \<open>voronoi.cellPolygon\<close> returns.
\<close>

type_synonym point = "real \<times> real"
type_synonym polygon = "point list"
type_synonym bounds = "real \<times> real \<times> real \<times> real"

text \<open>
  \<open>d3.Delaunay.from(points).voronoi(bounds)\<close> is the library's geometry primitive; its
  code is not part of the program. It is a parameter of the model: \<open>eng bounds points i\<close>
  is what \<open>voronoi.cellPolygon(i)\<close> returns, \<open>None\<close> standing for \<open>null\<close>.
\<close>

type_synonym engine = "bounds \<Rightarrow> point list \<Rightarrow> nat \<Rightarrow> polygon option"

text \<open>
  \<open>d3.polygonArea\<close>: the loop \<open>a = b; b = polygon[i]; area += a[1] * b[0] - a[0] * b[1]\<close>
  started with \<open>b = polygon[n - 1]\<close>, then \<open>area / 2\<close>.
\<close>

fun area_loop :: "real \<Rightarrow> point \<Rightarrow> polygon \<Rightarrow> real" where
  "area_loop area b [] = area"
| "area_loop area b (p # ps) = area_loop (area + (snd b * fst p - fst b * snd p)) p ps"

definition d3_polygonArea :: "polygon \<Rightarrow> real" where
  "d3_polygonArea polygon =
     (case polygon of [] \<Rightarrow> 0 | _ # _ \<Rightarrow> area_loop 0 (last polygon) polygon / 2)"

definition calculateArea :: "polygon \<Rightarrow> real" where
  "calculateArea polygon = \<bar>d3_polygonArea polygon\<bar>"

text \<open>\<open>d3.min\<close> and \<open>d3.max\<close>; \<open>None\<close> is the \<open>undefined\<close> of an empty array.\<close>

definition d3_min :: "real list \<Rightarrow> real option" where
  "d3_min xs = (case xs of [] \<Rightarrow> None | x # r \<Rightarrow> Some (fold min r x))"

definition d3_max :: "real list \<Rightarrow> real option" where
  "d3_max xs = (case xs of [] \<Rightarrow> None | x # r \<Rightarrow> Some (fold max r x))"

section \<open>The colour scale\<close>

text \<open>
  \<open>d3.scaleLinear().range([0, 1])\<close>, with the domain set at each redraw. The scale does
  not clamp (\<open>.clamp(true)\<close> is never called); d3 maps \<open>x\<close> through
  \<open>normalize(d0, d1)\<close> and then \<open>interpolateNumber(r0, r1)\<close>.
\<close>

definition d3_normalize :: "real \<Rightarrow> real \<Rightarrow> real \<Rightarrow> real" where
  "d3_normalize a b x = (if b - a \<noteq> 0 then (x - a) / (b - a) else 1 / 2)"

definition interpolateNumber :: "real \<Rightarrow> real \<Rightarrow> real \<Rightarrow> real" where
  "interpolateNumber a b t = a * (1 - t) + b * t"

definition scaleLinear :: "real \<times> real \<Rightarrow> real \<times> real \<Rightarrow> real \<Rightarrow> real" where
  "scaleLinear dmn rng x =
     (case (dmn, rng) of ((d0, d1), (r0, r1)) \<Rightarrow>
        if d1 < d0 then interpolateNumber r1 r0 (d3_normalize d1 d0 x)
        else interpolateNumber r0 r1 (d3_normalize d0 d1 x))"

definition colorScale :: "real \<times> real \<Rightarrow> real \<Rightarrow> real" where
  "colorScale dmn x = scaleLinear dmn (0, 1) x"

text \<open>
  \<open>d3.interpolateHsl("hsl(0, 60%, 70%)", "hsl(120, 60%, 70%)")\<close>: the hue runs linearly
  from 0 to 120 degrees, saturation and lightness are constant. The colour is kept as
  its HSL triple (d3 prints it as an \<open>rgb(...)\<close> string).
\<close>

record hsl =
  hue :: real
  saturation :: real
  lightness :: real

definition colorInterpolator :: "real \<Rightarrow> hsl" where
  "colorInterpolator t = \<lparr>hue = 0 + t * (120 - 0), saturation = 6 / 10, lightness = 7 / 10\<rparr>"

section \<open>Data of a redraw\<close>

record datum =
  point :: point
  index :: nat

definition pointsWithIndex :: "point list \<Rightarrow> datum list" where
  "pointsWithIndex points =
     map (\<lambda>(p, i). \<lparr>point = p, index = i\<rparr>) (zip points [0..<length points])"

text \<open>
  The test \<open>cellPolygon && d3.polygonArea(cellPolygon) !== undefined\<close>: an array is
  truthy and \<open>d3.polygonArea\<close> always returns a number, so the test is \<open>cellPolygon\<close>
  not being \<open>null\<close>.
\<close>

definition cellAreas :: "(nat \<Rightarrow> polygon option) \<Rightarrow> datum list \<Rightarrow> real list" where
  "cellAreas cellPolygon data =
     map (\<lambda>d. case cellPolygon (index d) of
                 Some poly \<Rightarrow> calculateArea poly
               | None \<Rightarrow> 0) data"

definition scaleDomain :: "real \<Rightarrow> real \<Rightarrow> real \<times> real" where
  "scaleDomain minArea maxArea =
     (if minArea < maxArea then (minArea, maxArea) else (minArea, minArea + 1))"

text \<open>The argument that the \<open>fill\<close> callback passes to \<open>colorInterpolator\<close>.\<close>

definition fillValue :: "real \<times> real \<Rightarrow> real \<Rightarrow> real \<Rightarrow> real \<Rightarrow> real" where
  "fillValue dmn minArea maxArea area =
     (let scaledValue = colorScale dmn area
      in if minArea = maxArea then 1 else scaledValue)"

section \<open>The rendered surface\<close>

text \<open>
  A \<open>path\<close> element of \<open>cellLayer\<close>: its bound datum (\<open>__data__\<close>), its attributes and
  the \<open>cellAreas\<close> array that its \<open>mouseover\<close> listener closes over. The \<open>d\<close> attribute
  holds what \<open>voronoi.renderCell\<close> draws, which is the outline \<open>voronoi.cellPolygon\<close>
  returns; \<open>None\<close> is the absent attribute (\<open>attr\<close> removes it for a null value).
\<close>

record path_node =
  p_datum :: datum
  p_d :: "polygon option"
  p_fill :: hsl
  p_stroke :: string
  p_areas :: "real list"

text \<open>A \<open>circle\<close> element of \<open>pointLayer\<close>.\<close>

record circle_node =
  c_datum :: datum
  c_cx :: real
  c_cy :: real
  c_r :: real

record tooltip =
  visibility :: string
  text_content :: string

record app_state =
  points :: "point list"
  colorDomain :: "real \<times> real"
  cells :: "path_node list"
  markers :: "circle_node list"
  tip :: tooltip

section \<open>The keyed data join of d3-selection\<close>

text \<open>
  \<open>selection.data(data, key)\<close> with a key function runs \<open>bindKey\<close>. Nodes are named by
  their position in the selected group, so that the identity test
  \<open>nodeByKeyValue.get(keyValues[i]) === node\<close> is a comparison of positions.
  First loop: a node whose key is already in the map goes to \<open>exit\<close>, otherwise it
  is stored under its key.
\<close>

fun bind_nodes :: "nat \<Rightarrow> nat list \<Rightarrow> (nat \<rightharpoonup> nat) \<Rightarrow> (nat \<rightharpoonup> nat) \<times> nat list" where
  "bind_nodes i [] m = (m, [])"
| "bind_nodes i (kv # kvs) m =
     (if m kv \<noteq> None
      then (let (m', ex) = bind_nodes (Suc i) kvs m in (m', i # ex))
      else bind_nodes (Suc i) kvs (m(kv \<mapsto> i)))"

text \<open>
  Second loop: a datum whose key is in the map takes that node into \<open>update\<close> and
  deletes the key; any other datum goes to \<open>enter\<close> (\<open>None\<close> in the update array).
\<close>

fun bind_data :: "nat list \<Rightarrow> (nat \<rightharpoonup> nat) \<Rightarrow> nat option list \<times> (nat \<rightharpoonup> nat)" where
  "bind_data [] m = ([], m)"
| "bind_data (kv # kvs) m =
     (case m kv of
        Some node \<Rightarrow> (let (upd, m') = bind_data kvs (m(kv := None)) in (Some node # upd, m'))
      | None \<Rightarrow> (let (upd, m') = bind_data kvs m in (None # upd, m')))"

record join =
  update_sel :: "nat option list"
  exit_sel :: "nat list"

text \<open>Third loop: the nodes still in the map exit, with the duplicates of the first loop.\<close>

definition bindKey :: "nat list \<Rightarrow> nat list \<Rightarrow> join" where
  "bindKey nodeKeys dataKeys =
     (let (m, dups) = bind_nodes 0 nodeKeys Map.empty;
          (upd, m') = bind_data dataKeys m
      in \<lparr>update_sel = upd,
          exit_sel = filter (\<lambda>i. i \<in> set dups \<or> m' (nodeKeys ! i) = Some i)
                       [0..<length nodeKeys]\<rparr>)"

fun find_pos :: "('a \<Rightarrow> bool) \<Rightarrow> 'a list \<Rightarrow> nat option" where
  "find_pos P [] = None"
| "find_pos P (x # xs) = (if P x then Some 0 else map_option Suc (find_pos P xs))"

text \<open>
  \<open>selection.data\<close> links every enter node to the update node that follows it in data
  order (\<open>_next\<close>), so that \<open>append\<close> inserts the new element before that node, or at
  the end of the parent when there is none.
\<close>

definition next_update :: "nat option list \<Rightarrow> nat \<Rightarrow> nat option" where
  "next_update upd i =
     map_option (\<lambda>k. Suc i + k) (find_pos (\<lambda>u. u \<noteq> None) (drop (Suc i) upd))"

text \<open>
  While a join is applied, each child of the layer carries the position of the datum
  it is bound to in this join (\<open>None\<close> for a node the join did not bind).
\<close>

fun insertBefore :: "nat \<Rightarrow> nat option \<times> 'n \<Rightarrow> (nat option \<times> 'n) list \<Rightarrow> (nat option \<times> 'n) list" where
  "insertBefore nxt new [] = [new]"
| "insertBefore nxt new (c # cs) =
     (if fst c = Some nxt then new # c # cs else c # insertBefore nxt new cs)"

definition appendEntered ::
  "(datum \<Rightarrow> nat \<Rightarrow> 'n) \<Rightarrow> datum list \<Rightarrow> nat option list \<Rightarrow> nat
     \<Rightarrow> (nat option \<times> 'n) list \<Rightarrow> (nat option \<times> 'n) list" where
  "appendEntered create data upd i children =
     (if upd ! i = None
      then (case next_update upd i of
              None \<Rightarrow> children @ [(Some i, create (data ! i) i)]
            | Some nxt \<Rightarrow> insertBefore nxt (Some i, create (data ! i) i) children)
      else children)"

text \<open>
  One layer's reconciliation, in the order of \<open>drawVoronoi\<close>: the join, then
  \<open>exit().remove()\<close>, then the attribute callbacks on the update selection (with the
  rebound datum and its position), then \<open>enter().append(...)\<close>.
\<close>

definition reconcile ::
  "('n \<Rightarrow> nat) \<Rightarrow> (datum \<Rightarrow> nat \<Rightarrow> 'n \<Rightarrow> 'n) \<Rightarrow> (datum \<Rightarrow> nat \<Rightarrow> 'n)
     \<Rightarrow> 'n list \<Rightarrow> datum list \<Rightarrow> 'n list" where
  "reconcile key update create nodes data =
     (let j = bindKey (map key nodes) (map index data);
          kept = filter (\<lambda>p. p \<notin> set (exit_sel j)) [0..<length nodes];
          bound = map (\<lambda>p. (find_pos (\<lambda>u. u = Some p) (update_sel j), nodes ! p)) kept;
          updated = map (\<lambda>(b, n). case b of
                                     Some i \<Rightarrow> (b, update (data ! i) i n)
                                   | None \<Rightarrow> (b, n)) bound
      in map snd (fold (appendEntered create data (update_sel j)) [0..<length data] updated))"

section \<open>drawVoronoi\<close>

definition updateCell ::
  "(nat \<Rightarrow> polygon option) \<Rightarrow> real list \<Rightarrow> real \<times> real \<Rightarrow> real \<Rightarrow> real
     \<Rightarrow> datum \<Rightarrow> nat \<Rightarrow> path_node \<Rightarrow> path_node" where
  "updateCell cellPolygon areas dmn minArea maxArea d i n =
     n\<lparr>p_datum := d,
       p_d := cellPolygon (index d),
       p_fill := colorInterpolator (fillValue dmn minArea maxArea (areas ! i)),
       p_stroke := ''#000'',
       p_areas := areas\<rparr>"

definition createCell ::
  "(nat \<Rightarrow> polygon option) \<Rightarrow> real list \<Rightarrow> real \<times> real \<Rightarrow> real \<Rightarrow> real
     \<Rightarrow> datum \<Rightarrow> nat \<Rightarrow> path_node" where
  "createCell cellPolygon areas dmn minArea maxArea d i =
     \<lparr>p_datum = d,
      p_d = cellPolygon (index d),
      p_fill = colorInterpolator (fillValue dmn minArea maxArea (areas ! i)),
      p_stroke = ''#000'',
      p_areas = areas\<rparr>"

definition updateCircle :: "datum \<Rightarrow> nat \<Rightarrow> circle_node \<Rightarrow> circle_node" where
  "updateCircle d i n = n\<lparr>c_datum := d, c_cx := fst (point d), c_cy := snd (point d)\<rparr>"

definition createCircle :: "datum \<Rightarrow> nat \<Rightarrow> circle_node" where
  "createCircle d i = \<lparr>c_datum = d, c_cx = fst (point d), c_cy = snd (point d), c_r = 5\<rparr>"

text \<open>
  The redraw. \<open>cellAreas\<close> has one entry per point and the empty store has returned
  before, so \<open>d3.min\<close> and \<open>d3.max\<close> are defined where they are called; the last branch
  is never taken.
\<close>

definition drawVoronoi :: "engine \<Rightarrow> real \<Rightarrow> real \<Rightarrow> app_state \<Rightarrow> app_state" where
  "drawVoronoi eng width height s =
     (if length (points s) = 0 then s\<lparr>cells := [], markers := []\<rparr>
      else
        let cellPolygon = eng (0, 0, width, height) (points s);
            data = pointsWithIndex (points s);
            areas = cellAreas cellPolygon data
        in case (d3_min areas, d3_max areas) of
             (Some minArea, Some maxArea) \<Rightarrow>
               let dmn = scaleDomain minArea maxArea
               in s\<lparr>colorDomain := dmn,
                    cells := reconcile (\<lambda>n. index (p_datum n))
                               (updateCell cellPolygon areas dmn minArea maxArea)
                               (createCell cellPolygon areas dmn minArea maxArea)
                               (cells s) data,
                    markers := reconcile (\<lambda>n. index (c_datum n))
                                 updateCircle createCircle (markers s) data\<rparr>
           | _ \<Rightarrow> s)"

section \<open>Event listeners\<close>

text \<open>
  A click event, as far as the listeners read it: \<open>event.target.tagName\<close>, the
  coordinates \<open>d3.pointer(event)\<close> returns, and whether \<open>stopPropagation\<close> was called.
\<close>

record click_event =
  target_tag :: string
  pointer :: point
  propagationStopped :: bool

text \<open>\<open>points.splice(start, 1)\<close>: nothing is removed when \<open>start\<close> is past the end.\<close>

definition splice1 :: "nat \<Rightarrow> 'a list \<Rightarrow> 'a list" where
  "splice1 start xs = take start xs @ drop (start + 1) xs"

text \<open>The listener of the \<open>svg\<close> element.\<close>

definition svg_click :: "engine \<Rightarrow> real \<Rightarrow> real \<Rightarrow> click_event \<Rightarrow> app_state \<Rightarrow> app_state" where
  "svg_click eng width height event s =
     (if target_tag event \<noteq> ''circle''
      then drawVoronoi eng width height (s\<lparr>points := points s @ [pointer event]\<rparr>)
      else s)"

text \<open>
  The listener that every circle gets when it is created; d3 calls it with the event
  and the datum bound to the element at the time of the event.
\<close>

definition circle_click ::
  "engine \<Rightarrow> real \<Rightarrow> real \<Rightarrow> click_event \<Rightarrow> datum \<Rightarrow> app_state \<Rightarrow> click_event \<times> app_state" where
  "circle_click eng width height event d s =
     (event\<lparr>propagationStopped := True\<rparr>,
      drawVoronoi eng width height (s\<lparr>points := splice1 (index d) (points s)\<rparr>))"

text \<open>
  The browser's dispatch of a click: the listener of the target element first, then,
  unless propagation was stopped, the listener of the enclosing \<open>svg\<close>. Paths have no
  click listener. A click on a circle that is not there is no event.
\<close>

datatype click_target = OnCircle nat | OnCell nat | OnCanvas

definition click ::
  "engine \<Rightarrow> real \<Rightarrow> real \<Rightarrow> click_target \<Rightarrow> point \<Rightarrow> app_state \<Rightarrow> app_state" where
  "click eng width height tgt xy s =
     (case tgt of
        OnCircle k \<Rightarrow>
          (if k < length (markers s)
           then (let event = \<lparr>target_tag = ''circle'', pointer = xy, propagationStopped = False\<rparr>;
                     (event', s') = circle_click eng width height event (c_datum (markers s ! k)) s
                 in if propagationStopped event' then s'
                    else svg_click eng width height event' s')
           else s)
      | OnCell k \<Rightarrow>
          svg_click eng width height
            \<lparr>target_tag = ''path'', pointer = xy, propagationStopped = False\<rparr> s
      | OnCanvas \<Rightarrow>
          svg_click eng width height
            \<lparr>target_tag = ''svg'', pointer = xy, propagationStopped = False\<rparr> s)"

definition resetButton :: "engine \<Rightarrow> real \<Rightarrow> real \<Rightarrow> app_state \<Rightarrow> app_state" where
  "resetButton eng width height s = drawVoronoi eng width height (s\<lparr>points := []\<rparr>)"

text \<open>The page after the script has run: d3's default domain, nothing rendered.\<close>

definition initial :: app_state where
  "initial = \<lparr>points = [], colorDomain = (0, 1), cells = [], markers = [],
              tip = \<lparr>visibility = ''hidden'', text_content = []\<rparr>\<rparr>"

text \<open>
  The \<open>mouseover\<close> listener \<open>function(event, d, i)\<close>. A parameter that the caller does
  not pass is \<open>undefined\<close> (\<open>None\<close>); \<open>cellAreas[undefined]\<close> and an index past the end
  are \<open>undefined\<close>, and \<open>undefined.toFixed\<close> throws a TypeError. \<open>toFixed\<close> stands for
  \<open>Number.prototype.toFixed\<close>.
\<close>

datatype js_error = TypeError

definition cell_mouseover ::
  "(real \<Rightarrow> nat \<Rightarrow> string) \<Rightarrow> real list \<Rightarrow> datum \<Rightarrow> nat option \<Rightarrow> tooltip \<Rightarrow> js_error + tooltip" where
  "cell_mouseover toFixed areas d i t =
     (case (case i of None \<Rightarrow> None
                    | Some k \<Rightarrow> if k < length areas then Some (areas ! k) else None) of
        None \<Rightarrow> Inl TypeError
      | Some a \<Rightarrow> Inr (t\<lparr>visibility := ''visible'', text_content := ''Area: '' @ toFixed a 2\<rparr>))"

text \<open>
  d3-selection (from version 2, the one that has \<open>d3.pointer\<close>) calls a listener as
  \<open>listener.call(node, event, node.__data__)\<close>: two arguments. An exception thrown by
  a listener leaves the page as it was.
\<close>

definition mouseover :: "(real \<Rightarrow> nat \<Rightarrow> string) \<Rightarrow> nat \<Rightarrow> app_state \<Rightarrow> js_error + app_state" where
  "mouseover toFixed k s =
     (let n = cells s ! k
      in case cell_mouseover toFixed (p_areas n) (p_datum n) None (tip s) of
           Inl e \<Rightarrow> Inl e
         | Inr t \<Rightarrow> Inr (s\<lparr>tip := t\<rparr>))"

section \<open>Export\<close>

definition svg_ns_attr :: string where
  \<open>svg_ns_attr = ''xmlns="http://www.w3.org/2000/svg"''\<close>

definition xlink_uri_quoted :: string where
  \<open>xlink_uri_quoted = ''"http://www.w3.org/1999/xlink"''\<close>

definition xlink_ns_attr :: string where
  \<open>xlink_ns_attr = ''xmlns:xlink="http://www.w3.org/1999/xlink"''\<close>

definition xml_declaration :: string where
  \<open>xml_declaration = ''<?xml version="1.0" standalone="no"?>'' @ [CHR 0x0D, CHR 0x0A]\<close>

fun starts_with :: "string \<Rightarrow> string \<Rightarrow> bool" where
  "starts_with [] s = True"
| "starts_with (p # ps) [] = False"
| "starts_with (p # ps) (c # cs) = (p = c \<and> starts_with ps cs)"

text \<open>\<open>[^>]*\<close> followed by the literal, from the start of the string.\<close>

fun scan_tag :: "string \<Rightarrow> string \<Rightarrow> bool" where
  "scan_tag lit [] = (lit = [])"
| "scan_tag lit (c # cs) = (starts_with lit (c # cs) \<or> (c \<noteq> CHR ''>'' \<and> scan_tag lit cs))"

text \<open>The regular expression \<open>/^<svg[^>]+LIT/\<close>, for a literal \<open>LIT\<close>.\<close>

definition match_root :: "string \<Rightarrow> string \<Rightarrow> bool" where
  "match_root lit source =
     (starts_with ''<svg'' source \<and>
      (case drop 4 source of [] \<Rightarrow> False | c # cs \<Rightarrow> c \<noteq> CHR ''>'' \<and> scan_tag lit cs))"

text \<open>\<open>source.replace(/^<svg/, replacement)\<close>.\<close>

definition replace_root :: "string \<Rightarrow> string \<Rightarrow> string" where
  "replace_root replacement source =
     (if starts_with ''<svg'' source then replacement @ drop 4 source else source)"

text \<open>The two conditional replacements under the comment \<open>Add name spaces\<close>.\<close>

definition addNamespaces :: "string \<Rightarrow> string" where
  "addNamespaces serialized =
     (let source = (if \<not> match_root svg_ns_attr serialized
                    then replace_root (''<svg '' @ svg_ns_attr) serialized
                    else serialized)
      in if \<not> match_root xlink_uri_quoted source
         then replace_root (''<svg '' @ xlink_ns_attr) source
         else source)"

text \<open>The string that the export listener puts into the downloaded file.\<close>

definition exportDocument :: "string \<Rightarrow> string" where
  "exportDocument serialized = xml_declaration @ addNamespaces serialized"

text \<open>
  The input of the export listener is what \<open>XMLSerializer\<close> writes for the canvas
  element: a string whose root element is \<open>svg\<close>, so that \<open><svg\<close> is followed by a
  space, by \<open>>\<close> or by \<open>/\<close>.
\<close>

definition svg_root :: "string \<Rightarrow> bool" where
  "svg_root source =
     (starts_with ''<svg'' source \<and>
      (case drop 4 source of
         [] \<Rightarrow> False
       | c # cs \<Rightarrow> c = CHR '' '' \<or> c = CHR ''>'' \<or> c = CHR ''/''))"

section \<open>Reachable states\<close>

text \<open>
  The states of the page: the initial one, and the ones that a click or the reset
  button leads to. The export listener only reads the page, and the hover listeners
  touch nothing but the tooltip, which no statement about reachable states reads.
\<close>

inductive reachable :: "engine \<Rightarrow> real \<Rightarrow> real \<Rightarrow> app_state \<Rightarrow> bool"
  for eng :: engine and width :: real and height :: real where
  start: "reachable eng width height initial"
| clicked: "reachable eng width height s \<Longrightarrow> reachable eng width height (click eng width height tgt xy s)"
| cleared: "reachable eng width height s \<Longrightarrow> reachable eng width height (resetButton eng width height s)"

text \<open>
  What the two layers hold once a redraw has brought them in step with a store: one
  element per point, in store order, each with the attributes of a new element. This
  is the invariant of the reachable states, proved below.
\<close>

definition rendered_cells :: "engine \<Rightarrow> real \<Rightarrow> real \<Rightarrow> point list \<Rightarrow> path_node list" where
  "rendered_cells eng width height ps =
     (let cellPolygon = eng (0, 0, width, height) ps;
          data = pointsWithIndex ps;
          areas = cellAreas cellPolygon data
      in case (d3_min areas, d3_max areas) of
           (Some minArea, Some maxArea) \<Rightarrow>
             map (\<lambda>i. createCell cellPolygon areas (scaleDomain minArea maxArea)
                         minArea maxArea (data ! i) i) [0..<length data]
         | _ \<Rightarrow> [])"

definition rendered_markers :: "point list \<Rightarrow> circle_node list" where
  "rendered_markers ps =
     (let data = pointsWithIndex ps in map (\<lambda>i. createCircle (data ! i) i) [0..<length data])"

definition in_step :: "engine \<Rightarrow> real \<Rightarrow> real \<Rightarrow> app_state \<Rightarrow> bool" where
  "in_step eng width height s =
     (cells s = rendered_cells eng width height (points s) \<and>
      markers s = rendered_markers (points s))"

text \<open>The layers' elements carry the keys \<open>0, 1, ...\<close> in document order.\<close>

definition keyed :: "app_state \<Rightarrow> bool" where
  "keyed s =
     (map (\<lambda>n. index (p_datum n)) (cells s) = [0..<length (cells s)] \<and>
      map (\<lambda>n. index (c_datum n)) (markers s) = [0..<length (markers s)] \<and>
      map c_r (markers s) = replicate (length (markers s)) 5)"

text \<open>
  For concrete examples: an engine that answers from a table of cells, and the cell
  d3-delaunay returns for a single site, the bounding box closed by its first vertex.
\<close>

definition fixed_cells :: "polygon option list \<Rightarrow> engine" where
  "fixed_cells tbl b ps i = (if i < length tbl then tbl ! i else None)"

definition box_cell :: "bounds \<Rightarrow> polygon" where
  "box_cell b =
     (case b of (xmin, ymin, xmax, ymax) \<Rightarrow>
        [(xmax, ymin), (xmax, ymax), (xmin, ymax), (xmin, ymin), (xmax, ymin)])"

definition two_strips :: engine where
  "two_strips = fixed_cells
     [Some [(0, 0), (200, 0), (200, 600), (0, 600), (0, 0)],
      Some [(200, 0), (800, 0), (800, 600), (200, 600), (200, 0)]]"

definition two_halves :: engine where
  "two_halves = fixed_cells
     [Some [(0, 0), (400, 0), (400, 600), (0, 600), (0, 0)],
      Some [(400, 0), (800, 0), (800, 600), (400, 600), (400, 0)]]"

definition box_and_null :: engine where
  "box_and_null = fixed_cells [Some (box_cell (0, 0, 800, 600)), None]"

text \<open>
  Two serialized surfaces for the examples: the canvas as \<open>XMLSerializer\<close> writes it,
  and a root element that declares the xlink namespace but not the svg namespace.
\<close>

definition canvas_source :: string where
  \<open>canvas_source =
     ''<svg xmlns="http://www.w3.org/2000/svg" id="voronoiCanvas" width="800" height="600"></svg>''\<close>

definition xlink_only_source :: string where
  \<open>xlink_only_source = ''<svg xmlns:xlink="http://www.w3.org/1999/xlink"></svg>''\<close>

section \<open>The data join on consecutive keys\<close>

lemma bind_nodes_upt:
  "bind_nodes a [a..<b] (\<lambda>k. if k < a then Some k else None) =
     ((\<lambda>k. if k < max a b then Some k else None), [])"
proof (induction "b - a" arbitrary: a)
  case 0
  then show ?case by (simp add: max_def)
next
  case (Suc d)
  then have ab: "a < b" by simp
  have m: "(\<lambda>k. if k < a then Some k else None)(a \<mapsto> a) = (\<lambda>k. if k < Suc a then Some k else None)"
    by (rule ext) auto
  have d: "d = b - Suc a" using Suc by simp
  show ?case using Suc.hyps(1)[OF d] ab
    by (simp add: upt_conv_Cons m max_def)
qed

lemma bind_data_upt:
  "bind_data [a..<n] (\<lambda>k. if a \<le> k \<and> k < m then Some k else None) =
     (map (\<lambda>i. if i < m then Some i else None) [a..<n],
      (\<lambda>k. if max a n \<le> k \<and> k < m then Some k else None))"
proof (induction "n - a" arbitrary: a)
  case 0
  then show ?case by (simp add: max_def)
next
  case (Suc d)
  then have an: "a < n" by simp
  have d: "d = n - Suc a" using Suc by simp
  have m1: "(\<lambda>k. if a \<le> k \<and> k < m then Some k else None)(a := None) = (\<lambda>k. if Suc a \<le> k \<and> k < m then Some k else None)"
    by (rule ext) auto
  have m2: "\<not> a < m \<Longrightarrow> (\<lambda>k. if a \<le> k \<and> k < m then Some k else None) = (\<lambda>k. if Suc a \<le> k \<and> k < m then Some k else None)"
    by (rule ext) auto
  show ?case
  proof (cases "a < m")
    case True
    then show ?thesis using Suc.hyps(1)[OF d] an
      by (simp add: upt_conv_Cons m1 max_def)
  next
    case False
    then show ?thesis using Suc.hyps(1)[OF d] an m2[OF False]
      by (simp add: upt_conv_Cons max_def)
  qed
qed

lemma bindKey_upt:
  "bindKey [0..<m] [0..<n] =
     \<lparr>update_sel = map (\<lambda>i. if i < m then Some i else None) [0..<n], exit_sel = [n..<m]\<rparr>"
proof -
  have e: "Map.empty = (\<lambda>k::nat. if k < 0 then Some k else None)" by simp
  have b1: "bind_nodes 0 [0..<m] Map.empty = ((\<lambda>k. if k < m then Some k else None), [])"
    unfolding e using bind_nodes_upt[of 0 m] by simp
  have b2: "bind_data [0..<n] (\<lambda>k. if k < m then Some k else None) =
     (map (\<lambda>i. if i < m then Some i else None) [0..<n],
      (\<lambda>k. if n \<le> k \<and> k < m then Some k else None))"
    using bind_data_upt[of 0 n m] by simp
  have f: "filter (\<lambda>i. n \<le> i) [0..<m] = [n..<m]"
  proof (induction m)
    case 0 then show ?case by simp
  next
    case (Suc m) then show ?case by (cases "n \<le> m") auto
  qed
  have g: "filter (\<lambda>i. (if n \<le> [0..<m] ! i \<and> [0..<m] ! i < m then Some ([0..<m] ! i) else None) = Some i) [0..<m] = filter (\<lambda>i. n \<le> i) [0..<m]"
    by (rule filter_cong) auto
  show ?thesis
    by (simp add: bindKey_def b1 b2 g f)
qed

lemma find_pos_None: "(find_pos P xs = None) = (\<forall>x\<in>set xs. \<not> P x)"
  by (induction xs) auto

lemma find_pos_upd:
  "p < m \<Longrightarrow> p < n \<Longrightarrow>
   find_pos (\<lambda>u. u = Some p) (map (\<lambda>i. if i < m then Some i else None) [a..<n]) =
     (if a \<le> p then Some (p - a) else None)"
proof (induction "n - a" arbitrary: a)
  case 0
  then show ?case by simp
next
  case (Suc d)
  then have an: "a < n" by simp
  have d: "d = n - Suc a" using Suc by simp
  have c: "[a..<n] = a # [Suc a..<n]" using an by (rule upt_conv_Cons)
  have ih: "find_pos (\<lambda>u. u = Some p) (map (\<lambda>i. if i < m then Some i else None) [Suc a..<n]) =
     (if Suc a \<le> p then Some (p - Suc a) else None)"
    using Suc.hyps(1)[OF d Suc.prems] .
  show ?case unfolding c using Suc.prems
    by (simp add: ih Suc_diff_Suc)
qed

lemma filter_less_upt: "filter (\<lambda>p. p < n) [0..<m] = [0..<min m n]"
proof (induction m)
  case 0
  then show ?case by simp
next
  case (Suc m)
  then show ?case by (cases "n \<le> m") (auto simp: min_def)
qed

lemma filter_kept: "filter (\<lambda>p. p \<notin> set [n..<m]) [0..<m] = [0..<min m n]"
proof -
  have "filter (\<lambda>p. p \<notin> set [n..<m]) [0..<m] = filter (\<lambda>p. p < n) [0..<m]"
    by (rule filter_cong) auto
  then show ?thesis by (simp only: filter_less_upt)
qed

lemma fold_appendEntered:
  assumes "upd = map (\<lambda>i. if i < m then Some i else None) [0..<n]"
  shows "k \<le> n \<Longrightarrow> fold (appendEntered create data upd) [0..<k] xs =
           xs @ map (\<lambda>i. (Some i, create (data ! i) i)) [m..<k]"
proof (induction k)
  case 0
  then show ?case by simp
next
  case (Suc k)
  then have kn: "k < n" by simp
  have ih: "fold (appendEntered create data upd) [0..<Suc k] xs =
           appendEntered create data upd k (xs @ map (\<lambda>i. (Some i, create (data ! i) i)) [m..<k])"
    using Suc by simp
  show ?case
  proof (cases "k < m")
    case True
    then have "upd ! k = Some k" using assms kn by simp
    then show ?thesis unfolding ih using True by (simp add: appendEntered_def)
  next
    case False
    then have u: "upd ! k = None" using assms kn by simp
    have "drop (Suc k) upd = map (\<lambda>i. if i < m then Some i else None) [Suc k..<n]"
      using assms by (simp add: drop_map)
    then have "find_pos (\<lambda>u. u \<noteq> None) (drop (Suc k) upd) = None"
      using False by (auto simp: find_pos_None)
    then have nx: "next_update upd k = None" by (simp add: next_update_def)
    show ?thesis unfolding ih using False u nx by (simp add: appendEntered_def)
  qed
qed

lemma reconcile_upt:
  assumes k: "map key nodes = [0..<length nodes]"
      and d: "map index data = [0..<length data]"
  shows "reconcile key update create nodes data =
           map (\<lambda>i. update (data ! i) i (nodes ! i)) [0..<min (length nodes) (length data)] @
           map (\<lambda>i. create (data ! i) i) [length nodes..<length data]"
proof -
  let ?m = "length nodes" and ?n = "length data"
  let ?upd = "map (\<lambda>i. if i < ?m then Some i else None) [0..<?n]"
  have j: "bindKey (map key nodes) (map index data) = \<lparr>update_sel = ?upd, exit_sel = [?n..<?m]\<rparr>"
    by (simp only: k d bindKey_upt)
  have b: "map (\<lambda>p. (find_pos (\<lambda>u. u = Some p) ?upd, nodes ! p)) [0..<min ?m ?n] =
           map (\<lambda>p. (Some p, nodes ! p)) [0..<min ?m ?n]"
    by (rule map_cong) (auto simp: find_pos_upd)
  have f: "fold (appendEntered create data ?upd) [0..<?n] xs =
           xs @ map (\<lambda>i. (Some i, create (data ! i) i)) [?m..<?n]" for xs
    using fold_appendEntered[OF refl, of "length data" "length data" create data "length nodes" xs] by simp
  have s1: "update_sel \<lparr>update_sel = ?upd, exit_sel = [?n..<?m]\<rparr> = ?upd"
    and s2: "exit_sel \<lparr>update_sel = ?upd, exit_sel = [?n..<?m]\<rparr> = [?n..<?m]" by simp_all
  have "reconcile key update create nodes data =
          map snd (map (\<lambda>(b, n). case b of Some i \<Rightarrow> (b, update (data ! i) i n) | None \<Rightarrow> (b, n))
                   (map (\<lambda>p. (Some p, nodes ! p)) [0..<min ?m ?n])
                 @ map (\<lambda>i. (Some i, create (data ! i) i)) [?m..<?n])"
    unfolding reconcile_def j Let_def s1 s2 filter_kept b f ..
  then show ?thesis by (simp add: o_def)
qed

section \<open>The invariant of the reachable states\<close>

lemma length_pointsWithIndex [simp]: "length (pointsWithIndex ps) = length ps"
  by (simp add: pointsWithIndex_def)

lemma nth_pointsWithIndex:
  "i < length ps \<Longrightarrow> pointsWithIndex ps ! i = \<lparr>point = ps ! i, index = i\<rparr>"
  by (simp add: pointsWithIndex_def)

lemma index_pointsWithIndex: "map index (pointsWithIndex ps) = [0..<length ps]"
  by (rule nth_equalityI) (simp_all add: nth_pointsWithIndex)

lemma length_cellAreas [simp]: "length (cellAreas cp data) = length data"
  by (simp add: cellAreas_def)

lemma d3_min_Some: "xs \<noteq> [] \<Longrightarrow> \<exists>m. d3_min xs = Some m"
  by (cases xs) (simp_all add: d3_min_def)

lemma d3_max_Some: "xs \<noteq> [] \<Longrightarrow> \<exists>m. d3_max xs = Some m"
  by (cases xs) (simp_all add: d3_max_def)

lemma updateCell_createCell:
  "updateCell cp areas dmn mn mx d i n = createCell cp areas dmn mn mx d i"
  by (cases n) (simp add: updateCell_def createCell_def)

lemma updateCircle_createCircle:
  "c_r n = 5 \<Longrightarrow> updateCircle d i n = createCircle d i"
  by (cases n) (simp add: updateCircle_def createCircle_def)

lemma upt_split_min: "map f [0..<min m n] @ map f [m..<n] = map f [0..<n::nat]"
proof (cases "m \<le> n")
  case True
  then have "[0..<n] = [0..<m] @ [m..<n]" by (metis upt_add_eq_append le_add_diff_inverse zero_le)
  then show ?thesis using True by (simp add: min_def)
next
  case False
  then show ?thesis by (simp add: min_def)
qed

lemma reconcile_cells:
  assumes "map (\<lambda>n. index (p_datum n)) nodes = [0..<length nodes]"
  shows "reconcile (\<lambda>n. index (p_datum n)) (updateCell cp areas dmn mn mx)
           (createCell cp areas dmn mn mx) nodes (pointsWithIndex ps) =
         map (\<lambda>i. createCell cp areas dmn mn mx (pointsWithIndex ps ! i) i) [0..<length ps]"
proof -
  have d: "map index (pointsWithIndex ps) = [0..<length (pointsWithIndex ps)]"
    by (simp add: index_pointsWithIndex)
  show ?thesis
    unfolding reconcile_upt[OF assms d] updateCell_createCell
    using upt_split_min[of "\<lambda>i. createCell cp areas dmn mn mx (pointsWithIndex ps ! i) i" "length nodes" "length ps"]
    by simp
qed

lemma reconcile_markers:
  assumes k: "map (\<lambda>n. index (c_datum n)) nodes = [0..<length nodes]"
      and r: "map c_r nodes = replicate (length nodes) 5"
  shows "reconcile (\<lambda>n. index (c_datum n)) updateCircle createCircle nodes (pointsWithIndex ps) =
         map (\<lambda>i. createCircle (pointsWithIndex ps ! i) i) [0..<length ps]"
proof -
  have d: "map index (pointsWithIndex ps) = [0..<length (pointsWithIndex ps)]"
    by (simp add: index_pointsWithIndex)
  have r5: "i < length nodes \<Longrightarrow> c_r (nodes ! i) = 5" for i
  proof -
    assume i: "i < length nodes"
    then have "c_r (nodes ! i) = map c_r nodes ! i" by simp
    also have "\<dots> = 5" unfolding r using i by simp
    finally show ?thesis .
  qed
  have u: "map (\<lambda>i. updateCircle (pointsWithIndex ps ! i) i (nodes ! i)) [0..<min (length nodes) (length ps)] =
           map (\<lambda>i. createCircle (pointsWithIndex ps ! i) i) [0..<min (length nodes) (length ps)]"
    by (rule map_cong) (simp_all add: updateCircle_createCircle r5)
  show ?thesis
    unfolding reconcile_upt[OF k d] length_pointsWithIndex u
    by (rule upt_split_min)
qed

lemma draw_in_step:
  assumes "keyed s"
  shows "in_step eng w h (drawVoronoi eng w h s)"
proof (cases "points s = []")
  case True
  then show ?thesis
    by (simp add: in_step_def drawVoronoi_def rendered_cells_def rendered_markers_def
        pointsWithIndex_def cellAreas_def d3_min_def)
next
  case False
  let ?areas = "cellAreas (eng (0, 0, w, h) (points s)) (pointsWithIndex (points s))"
  have ne: "?areas \<noteq> []" using False by (simp add: cellAreas_def pointsWithIndex_def)
  obtain mn mx where mn: "d3_min ?areas = Some mn" and mx: "d3_max ?areas = Some mx"
    using d3_min_Some[OF ne] d3_max_Some[OF ne] by blast
  have kc: "map (\<lambda>n. index (p_datum n)) (cells s) = [0..<length (cells s)]"
    and km: "map (\<lambda>n. index (c_datum n)) (markers s) = [0..<length (markers s)]"
    and kr: "map c_r (markers s) = replicate (length (markers s)) 5"
    using assms by (simp_all add: keyed_def)
  show ?thesis
    using False
    by (simp add: in_step_def drawVoronoi_def rendered_cells_def rendered_markers_def Let_def
        mn mx reconcile_cells[OF kc] reconcile_markers[OF km kr])
qed

lemma in_step_keyed:
  assumes "in_step eng w h s"
  shows "keyed (s\<lparr>points := ps\<rparr>)"
proof -
  have c: "map (\<lambda>n. index (p_datum n)) (rendered_cells eng w h qs) = [0..<length (rendered_cells eng w h qs)]" for qs
    by (rule nth_equalityI)
       (auto simp add: rendered_cells_def Let_def createCell_def nth_pointsWithIndex split: option.splits)
  have m: "map (\<lambda>n. index (c_datum n)) (rendered_markers qs) = [0..<length (rendered_markers qs)]" for qs
    by (rule nth_equalityI)
       (auto simp add: rendered_markers_def Let_def createCircle_def nth_pointsWithIndex)
  have r: "map c_r (rendered_markers qs) = replicate (length (rendered_markers qs)) 5" for qs
    by (rule nth_equalityI)
       (auto simp add: rendered_markers_def Let_def createCircle_def)
  show ?thesis using assms c m r by (simp add: keyed_def in_step_def)
qed

lemma keyed_initial: "keyed initial"
  by (simp add: keyed_def initial_def)

lemma in_step_points: "in_step eng w h s \<Longrightarrow> in_step eng w h (drawVoronoi eng w h (s\<lparr>points := ps\<rparr>))"
  by (rule draw_in_step) (rule in_step_keyed)

lemma click_in_step: "in_step eng w h s \<Longrightarrow> in_step eng w h (click eng w h tgt xy s)"
  by (cases tgt) (auto simp add: click_def svg_click_def circle_click_def in_step_points)

lemma reachable_in_step: "reachable eng w h s \<Longrightarrow> in_step eng w h s"
proof (induction rule: reachable.induct)
  case start
  show ?case
    by (simp add: in_step_def initial_def rendered_cells_def rendered_markers_def
        pointsWithIndex_def cellAreas_def d3_min_def)
next
  case (clicked s tgt xy)
  then show ?case by (simp add: click_in_step)
next
  case (cleared s)
  then show ?case by (simp add: resetButton_def in_step_points)
qed

section \<open>Redrawing from a reachable state\<close>

lemma points_drawVoronoi [simp]: "points (drawVoronoi eng w h s) = points s"
  by (simp add: drawVoronoi_def Let_def split: option.splits)

lemma redraw_cells:
  assumes "reachable eng w h s0"
  shows "cells (drawVoronoi eng w h (s0\<lparr>points := ps\<rparr>)) = rendered_cells eng w h ps"
  using in_step_points[OF reachable_in_step[OF assms], of ps]
  by (simp add: in_step_def)

lemma redraw_markers:
  assumes "reachable eng w h s0"
  shows "markers (drawVoronoi eng w h (s0\<lparr>points := ps\<rparr>)) = rendered_markers ps"
  using in_step_points[OF reachable_in_step[OF assms], of ps]
  by (simp add: in_step_def)

lemma box_area:
  "0 < w \<Longrightarrow> 0 < h \<Longrightarrow> calculateArea (box_cell (0, 0, w, h)) = w * h"
  by (simp add: calculateArea_def d3_polygonArea_def box_cell_def)

section \<open>A single point\<close>

text \<open>
  Claim C1. Whenever the store holds exactly one point and the geometry primitive
  answers with the bounding box for it (as d3-delaunay does for a single site), the
  redraw leaves exactly one region: its outline is the bounding rectangle, its area is
  \<open>width * height\<close>, and its fill is the end of the colour ramp at hue 120.
\<close>

theorem single_point_region:
  assumes "reachable eng width height s0"
    and "eng (0, 0, width, height) [p] 0 = Some (box_cell (0, 0, width, height))"
    and "0 < width" and "0 < height"
  shows "cells (drawVoronoi eng width height (s0\<lparr>points := [p]\<rparr>)) =
           [\<lparr>p_datum = \<lparr>point = p, index = 0\<rparr>,
             p_d = Some (box_cell (0, 0, width, height)),
             p_fill = \<lparr>hue = 120, saturation = 6 / 10, lightness = 7 / 10\<rparr>,
             p_stroke = ''#000'',
             p_areas = [width * height]\<rparr>]"
proof -
  have a: "cellAreas (eng (0, 0, width, height) [p]) (pointsWithIndex [p]) = [width * height]"
    using assms(2) box_area[OF assms(3,4)] by (simp add: cellAreas_def pointsWithIndex_def)
  show ?thesis
    unfolding redraw_cells[OF assms(1)] rendered_cells_def Let_def a
    using assms(2)
    by (simp add: d3_min_def d3_max_def createCell_def fillValue_def
        colorInterpolator_def nth_pointsWithIndex)
qed

text \<open>The scenario of the specification: the point (10, 10) in bounds of 800 by 600.\<close>

theorem single_point_region_witness:
  "cells (drawVoronoi (fixed_cells [Some (box_cell (0, 0, 800, 600))]) 800 600
            (initial\<lparr>points := [(10, 10)]\<rparr>)) =
     [\<lparr>p_datum = \<lparr>point = (10, 10), index = 0\<rparr>,
       p_d = Some [(800, 0), (800, 600), (0, 600), (0, 0), (800, 0)],
       p_fill = \<lparr>hue = 120, saturation = 6 / 10, lightness = 7 / 10\<rparr>,
       p_stroke = ''#000'',
       p_areas = [480000]\<rparr>]"
  using single_point_region[of "fixed_cells [Some (box_cell (0, 0, 800, 600))]" 800 600 initial "(10, 10)",
          OF reachable.start]
  by (simp add: fixed_cells_def box_cell_def)

section \<open>The empty store\<close>

text \<open>
  Claim C6. With an empty store the redraw removes every cell and every marker and
  changes nothing else; the result does not depend on the geometry primitive, which is
  not called.
\<close>

theorem empty_store_clears:
  "drawVoronoi eng width height (s\<lparr>points := []\<rparr>) = s\<lparr>points := [], cells := [], markers := []\<rparr>"
  by (simp add: drawVoronoi_def)

section \<open>Hovering over a region\<close>

text \<open>
  Claim C4 says that hovering over a region shows its area in the tooltip. The listener
  is declared with three parameters, \<open>(event, d, i)\<close>, and reads \<open>cellAreas[i]\<close>; d3 passes
  only the event and the datum, so \<open>i\<close> is \<open>undefined\<close> and \<open>toFixed\<close> is called on
  \<open>undefined\<close>: for every region of every state the listener throws and the tooltip is
  left as it was.
\<close>

theorem hover_throws:
  "mouseover toFixed k s = Inl TypeError"
  by (simp add: mouseover_def cell_mouseover_def)

section \<open>Areas, extremes and the scale\<close>

lemma d3_min_Min: "xs \<noteq> [] \<Longrightarrow> d3_min xs = Some (Min (set xs))"
proof (cases xs)
  case Nil
  assume "xs \<noteq> []"
  with Nil show ?thesis by simp
next
  case (Cons a r)
  have "Min (set (a # r)) = fold min r a" by (rule Min.set_eq_fold)
  then show ?thesis using Cons by (simp add: d3_min_def)
qed

lemma d3_max_Max: "xs \<noteq> [] \<Longrightarrow> d3_max xs = Some (Max (set xs))"
proof (cases xs)
  case Nil
  assume "xs \<noteq> []"
  with Nil show ?thesis by simp
next
  case (Cons a r)
  have "Max (set (a # r)) = fold max r a" by (rule Max.set_eq_fold)
  then show ?thesis using Cons by (simp add: d3_max_def)
qed

lemma d3_min_le: "d3_min xs = Some m \<Longrightarrow> a \<in> set xs \<Longrightarrow> m \<le> a"
  by (cases "xs = []") (auto simp: d3_min_Min)

lemma d3_max_ge: "d3_max xs = Some m \<Longrightarrow> a \<in> set xs \<Longrightarrow> a \<le> m"
  by (cases "xs = []") (auto simp: d3_max_Max)

lemma nth_rendered_cells:
  assumes "d3_min (cellAreas (eng (0, 0, w, h) ps) (pointsWithIndex ps)) = Some mn"
    and "d3_max (cellAreas (eng (0, 0, w, h) ps) (pointsWithIndex ps)) = Some mx"
    and "i < length ps"
  shows "rendered_cells eng w h ps ! i =
           createCell (eng (0, 0, w, h) ps) (cellAreas (eng (0, 0, w, h) ps) (pointsWithIndex ps))
             (scaleDomain mn mx) mn mx \<lparr>point = ps ! i, index = i\<rparr> i"
  using assms by (simp add: rendered_cells_def Let_def nth_pointsWithIndex)

lemma length_rendered_cells: "length (rendered_cells eng w h ps) = length ps"
proof (cases "ps = []")
  case True
  then show ?thesis
    by (simp add: rendered_cells_def pointsWithIndex_def cellAreas_def d3_min_def)
next
  case False
  then have ne: "cellAreas (eng (0, 0, w, h) ps) (pointsWithIndex ps) \<noteq> []"
    by (simp add: cellAreas_def pointsWithIndex_def)
  show ?thesis
    using d3_min_Some[OF ne] d3_max_Some[OF ne]
    by (auto simp add: rendered_cells_def Let_def)
qed

lemma fillValue_unit:
  assumes "mn \<le> a" and "a \<le> mx"
  shows "0 \<le> fillValue (scaleDomain mn mx) mn mx a \<and> fillValue (scaleDomain mn mx) mn mx a \<le> 1"
proof (cases "mn = mx")
  case True
  then show ?thesis by (simp add: fillValue_def)
next
  case False
  then have lt: "mn < mx" using assms by simp
  then have "fillValue (scaleDomain mn mx) mn mx a = (a - mn) / (mx - mn)"
    by (simp add: fillValue_def scaleDomain_def colorScale_def scaleLinear_def
        interpolateNumber_def d3_normalize_def)
  then show ?thesis using assms lt by simp
qed

lemma cellAreas_nonempty: "ps \<noteq> [] \<Longrightarrow> cellAreas cp (pointsWithIndex ps) \<noteq> []"
  by (simp add: cellAreas_def pointsWithIndex_def)

lemma nth_cellAreas:
  "i < length ps \<Longrightarrow>
   cellAreas cp (pointsWithIndex ps) ! i =
     (case cp i of Some poly \<Rightarrow> calculateArea poly | None \<Rightarrow> 0)"
  by (simp add: cellAreas_def nth_pointsWithIndex)

lemma cellAreas_nonneg: "a \<in> set (cellAreas cp data) \<Longrightarrow> 0 \<le> a"
  by (auto simp add: cellAreas_def calculateArea_def split: option.splits)

lemma colorDomain_redraw:
  assumes "d3_min (cellAreas (eng (0, 0, w, h) ps) (pointsWithIndex ps)) = Some mn"
    and "d3_max (cellAreas (eng (0, 0, w, h) ps) (pointsWithIndex ps)) = Some mx"
    and "ps \<noteq> []"
  shows "colorDomain (drawVoronoi eng w h (s\<lparr>points := ps\<rparr>)) = scaleDomain mn mx"
  using assms by (simp add: drawVoronoi_def Let_def)

text \<open>Three tables of cells in bounds of 800 by 600, for the examples.\<close>

lemma pointsWithIndex_two:
  "pointsWithIndex [p, q] = [\<lparr>point = p, index = 0\<rparr>, \<lparr>point = q, index = 1\<rparr>]"
  by (simp add: pointsWithIndex_def upt_rec)

lemma two_strips_areas:
  "cellAreas (two_strips (0, 0, 800, 600) [p, q]) (pointsWithIndex [p, q]) = [120000, 360000]"
  by (simp add: pointsWithIndex_two cellAreas_def two_strips_def fixed_cells_def
      calculateArea_def d3_polygonArea_def)

lemma two_halves_areas:
  "cellAreas (two_halves (0, 0, 800, 600) [p, q]) (pointsWithIndex [p, q]) = [240000, 240000]"
  by (simp add: pointsWithIndex_two cellAreas_def two_halves_def fixed_cells_def
      calculateArea_def d3_polygonArea_def)

lemma box_and_null_areas:
  "cellAreas (box_and_null (0, 0, 800, 600) [p, q]) (pointsWithIndex [p, q]) = [480000, 0]"
  by (simp add: pointsWithIndex_two cellAreas_def box_and_null_def fixed_cells_def
      calculateArea_def d3_polygonArea_def box_cell_def)

section \<open>Equal areas\<close>

text \<open>
  Claim C2. Whenever the store is not empty and all the cell areas of a redraw are
  equal, the minimum and the maximum area coincide and every region is filled with the
  same colour, the one the interpolator gives at 1: the end of the ramp at hue 120.
\<close>

theorem equal_areas_same_colour:
  assumes "reachable eng width height s0"
    and "ps \<noteq> []"
    and "\<forall>a\<in>set (cellAreas (eng (0, 0, width, height) ps) (pointsWithIndex ps)).
         \<forall>b\<in>set (cellAreas (eng (0, 0, width, height) ps) (pointsWithIndex ps)). a = b"
  shows "d3_min (cellAreas (eng (0, 0, width, height) ps) (pointsWithIndex ps)) =
           d3_max (cellAreas (eng (0, 0, width, height) ps) (pointsWithIndex ps))
         \<and> map p_fill (cells (drawVoronoi eng width height (s0\<lparr>points := ps\<rparr>))) =
             replicate (length ps) (colorInterpolator 1)
         \<and> colorInterpolator 1 = \<lparr>hue = 120, saturation = 6 / 10, lightness = 7 / 10\<rparr>"
proof -
  let ?areas = "cellAreas (eng (0, 0, width, height) ps) (pointsWithIndex ps)"
  have ne: "?areas \<noteq> []" using assms(2) by (rule cellAreas_nonempty)
  have mn: "d3_min ?areas = Some (Min (set ?areas))" using ne by (rule d3_min_Min)
  have mx: "d3_max ?areas = Some (Max (set ?areas))" using ne by (rule d3_max_Max)
  have "Min (set ?areas) \<in> set ?areas" and "Max (set ?areas) \<in> set ?areas"
    using ne by simp_all
  then have eq: "Min (set ?areas) = Max (set ?areas)" using assms(3) by blast
  have fill: "map p_fill (rendered_cells eng width height ps) =
                replicate (length ps) (colorInterpolator 1)"
  proof (rule nth_equalityI)
    show "length (map p_fill (rendered_cells eng width height ps)) =
            length (replicate (length ps) (colorInterpolator 1))"
      by (simp add: length_rendered_cells)
  next
    fix i
    assume "i < length (map p_fill (rendered_cells eng width height ps))"
    then have i: "i < length ps" by (simp add: length_rendered_cells)
    have "p_fill (rendered_cells eng width height ps ! i) = colorInterpolator 1"
      unfolding nth_rendered_cells[of eng width height ps "Min (set ?areas)" "Max (set ?areas)" i,
          OF mn mx i]
      by (simp add: createCell_def fillValue_def eq)
    then show "map p_fill (rendered_cells eng width height ps) ! i =
                 replicate (length ps) (colorInterpolator 1) ! i"
      using i by (simp add: length_rendered_cells)
  qed
  show ?thesis
    unfolding redraw_cells[OF assms(1)] fill mn mx
    by (simp add: eq colorInterpolator_def)
qed

text \<open>Two halves of the canvas, 240000 area units each.\<close>

theorem equal_areas_same_colour_witness:
  "map p_fill (cells (drawVoronoi two_halves 800 600
                        (initial\<lparr>points := [(200, 300), (600, 300)]\<rparr>))) =
     [\<lparr>hue = 120, saturation = 6 / 10, lightness = 7 / 10\<rparr>,
      \<lparr>hue = 120, saturation = 6 / 10, lightness = 7 / 10\<rparr>]"
  using equal_areas_same_colour[of two_halves 800 600 initial "[(200, 300), (600, 300)]",
          OF reachable.start]
  by (simp add: two_halves_areas)

section \<open>The value given to the interpolator\<close>

text \<open>
  Claim C3. In every redraw, with \<open>minArea\<close> and \<open>maxArea\<close> the extremes of the cell
  areas, the fill of region \<open>i\<close> is the interpolator applied to the value that the fill
  callback computes from the area of region \<open>i\<close>, and that value lies between 0 and 1.
  The scale itself does not clamp; the bound holds because the domain is fitted to the
  areas being coloured.
\<close>

theorem fill_value_in_unit_interval:
  assumes "reachable eng width height s0"
    and "d3_min (cellAreas (eng (0, 0, width, height) ps) (pointsWithIndex ps)) = Some minArea"
    and "d3_max (cellAreas (eng (0, 0, width, height) ps) (pointsWithIndex ps)) = Some maxArea"
    and "i < length ps"
  shows "p_fill (cells (drawVoronoi eng width height (s0\<lparr>points := ps\<rparr>)) ! i) =
           colorInterpolator (fillValue (scaleDomain minArea maxArea) minArea maxArea
             (cellAreas (eng (0, 0, width, height) ps) (pointsWithIndex ps) ! i))
         \<and> 0 \<le> fillValue (scaleDomain minArea maxArea) minArea maxArea
                  (cellAreas (eng (0, 0, width, height) ps) (pointsWithIndex ps) ! i)
         \<and> fillValue (scaleDomain minArea maxArea) minArea maxArea
                  (cellAreas (eng (0, 0, width, height) ps) (pointsWithIndex ps) ! i) \<le> 1"
proof -
  let ?areas = "cellAreas (eng (0, 0, width, height) ps) (pointsWithIndex ps)"
  have m: "?areas ! i \<in> set ?areas" using assms(4) by simp
  have f: "p_fill (cells (drawVoronoi eng width height (s0\<lparr>points := ps\<rparr>)) ! i) =
           colorInterpolator (fillValue (scaleDomain minArea maxArea) minArea maxArea (?areas ! i))"
    unfolding redraw_cells[OF assms(1)]
      nth_rendered_cells[of eng width height ps minArea maxArea i, OF assms(2,3,4)]
    by (simp add: createCell_def)
  show ?thesis
    using f fillValue_unit[OF d3_min_le[OF assms(2) m] d3_max_ge[OF assms(3) m]] by simp
qed

text \<open>A narrow and a wide strip: the wide one gets the value 1.\<close>

theorem fill_value_in_unit_interval_witness:
  "p_fill (cells (drawVoronoi two_strips 800 600
             (initial\<lparr>points := [(100, 300), (500, 300)]\<rparr>)) ! 1) = colorInterpolator 1
   \<and> 0 \<le> fillValue (120000, 360000) 120000 360000 360000
   \<and> fillValue (120000, 360000) 120000 360000 360000 \<le> 1"
proof -
  have mn: "d3_min (cellAreas (two_strips (0, 0, 800, 600) [(100, 300), (500, 300)])
              (pointsWithIndex [(100, 300), (500, 300)])) = Some 120000"
    by (simp add: two_strips_areas d3_min_def)
  have mx: "d3_max (cellAreas (two_strips (0, 0, 800, 600) [(100, 300), (500, 300)])
              (pointsWithIndex [(100, 300), (500, 300)])) = Some 360000"
    by (simp add: two_strips_areas d3_max_def)
  have i: "1 < length [(100, 300), (500, 300) :: point]" by simp
  have v: "fillValue (120000, 360000) 120000 360000 360000 = 1"
    by (simp add: fillValue_def colorScale_def scaleLinear_def interpolateNumber_def d3_normalize_def)
  show ?thesis
    using fill_value_in_unit_interval[of two_strips 800 600 initial "[(100, 300), (500, 300)]"
            120000 360000 1, OF reachable.start mn mx i]
    by (simp add: two_strips_areas scaleDomain_def v)
qed

section \<open>Degenerate cells\<close>

text \<open>
  Claim C5. Whenever the geometry primitive gives no polygon for point \<open>i\<close>, the redraw
  still returns: the area entry of the point is 0, that 0 is the minimum from which the
  scale domain is set (together with the maximum over all points), every point still
  has its region element, and the element of point \<open>i\<close> has no outline.
\<close>

theorem degenerate_cell_area_zero:
  assumes "reachable eng width height s0"
    and "i < length ps"
    and "eng (0, 0, width, height) ps i = None"
  shows "cellAreas (eng (0, 0, width, height) ps) (pointsWithIndex ps) ! i = 0
         \<and> d3_min (cellAreas (eng (0, 0, width, height) ps) (pointsWithIndex ps)) = Some 0
         \<and> (\<exists>maxArea. d3_max (cellAreas (eng (0, 0, width, height) ps) (pointsWithIndex ps)) =
                          Some maxArea
                \<and> 0 \<le> maxArea
                \<and> colorDomain (drawVoronoi eng width height (s0\<lparr>points := ps\<rparr>)) =
                    scaleDomain 0 maxArea)
         \<and> length (cells (drawVoronoi eng width height (s0\<lparr>points := ps\<rparr>))) = length ps
         \<and> p_d (cells (drawVoronoi eng width height (s0\<lparr>points := ps\<rparr>)) ! i) = None"
proof -
  let ?areas = "cellAreas (eng (0, 0, width, height) ps) (pointsWithIndex ps)"
  have ps: "ps \<noteq> []" using assms(2) by auto
  have ne: "?areas \<noteq> []" using ps by (rule cellAreas_nonempty)
  have z: "?areas ! i = 0" using assms(2,3) by (simp add: nth_cellAreas)
  have zin: "0 \<in> set ?areas" using z assms(2) by (metis length_cellAreas length_pointsWithIndex nth_mem)
  have "Min (set ?areas) = 0"
    by (rule Min_eqI) (use zin cellAreas_nonneg in auto)
  then have mn: "d3_min ?areas = Some 0" using d3_min_Min[OF ne] by simp
  have mx: "d3_max ?areas = Some (Max (set ?areas))" using ne by (rule d3_max_Max)
  have mx0: "0 \<le> Max (set ?areas)" using zin by simp
  have dm: "colorDomain (drawVoronoi eng width height (s0\<lparr>points := ps\<rparr>)) =
              scaleDomain 0 (Max (set ?areas))"
    using colorDomain_redraw[of eng width height ps 0 "Max (set ?areas)" s0, OF mn mx ps] .
  have d: "p_d (cells (drawVoronoi eng width height (s0\<lparr>points := ps\<rparr>)) ! i) = None"
    unfolding redraw_cells[OF assms(1)]
      nth_rendered_cells[of eng width height ps 0 "Max (set ?areas)" i, OF mn mx assms(2)]
    using assms(3) by (simp add: createCell_def)
  have l: "length (cells (drawVoronoi eng width height (s0\<lparr>points := ps\<rparr>))) = length ps"
    unfolding redraw_cells[OF assms(1)] by (rule length_rendered_cells)
  show ?thesis using z mn mx mx0 dm d l by simp
qed

text \<open>Two coincident points, the second without a cell.\<close>

theorem degenerate_cell_area_zero_witness:
  "cellAreas (box_and_null (0, 0, 800, 600) [(10, 10), (10, 10)])
     (pointsWithIndex [(10, 10), (10, 10)]) = [480000, 0]
   \<and> colorDomain (drawVoronoi box_and_null 800 600
                     (initial\<lparr>points := [(10, 10), (10, 10)]\<rparr>)) = (0, 480000)
   \<and> p_d (cells (drawVoronoi box_and_null 800 600
                     (initial\<lparr>points := [(10, 10), (10, 10)]\<rparr>)) ! 1) = None"
proof -
  have n: "box_and_null (0, 0, 800, 600) [(10, 10), (10, 10)] 1 = None"
    by (simp add: box_and_null_def fixed_cells_def)
  have i: "1 < length [(10, 10), (10, 10) :: point]" by simp
  show ?thesis
    using degenerate_cell_area_zero[of box_and_null 800 600 initial 1 "[(10, 10), (10, 10)]",
            OF reachable.start i n]
    by (simp add: box_and_null_areas d3_max_def scaleDomain_def)
qed

section \<open>Clicks\<close>

lemma length_rendered_markers [simp]: "length (rendered_markers ps) = length ps"
  by (simp add: rendered_markers_def Let_def)

lemma nth_rendered_markers:
  "i < length ps \<Longrightarrow>
   rendered_markers ps ! i =
     \<lparr>c_datum = \<lparr>point = ps ! i, index = i\<rparr>, c_cx = fst (ps ! i), c_cy = snd (ps ! i), c_r = 5\<rparr>"
  by (simp add: rendered_markers_def Let_def createCircle_def nth_pointsWithIndex)

lemma reachable_markers: "reachable eng w h s \<Longrightarrow> markers s = rendered_markers (points s)"
  by (drule reachable_in_step) (simp add: in_step_def)

lemma reachable_cells: "reachable eng w h s \<Longrightarrow> cells s = rendered_cells eng w h (points s)"
  by (drule reachable_in_step) (simp add: in_step_def)

lemma click_canvas:
  "click eng w h OnCanvas xy s = drawVoronoi eng w h (s\<lparr>points := points s @ [xy]\<rparr>)"
  by (simp add: click_def svg_click_def)

lemma click_circle:
  "k < length (markers s) \<Longrightarrow>
   click eng w h (OnCircle k) xy s =
     drawVoronoi eng w h (s\<lparr>points := splice1 (index (c_datum (markers s ! k))) (points s)\<rparr>)"
  by (simp add: click_def circle_click_def)







section \<open>A click on a marker\<close>

text \<open>
  Claim C7. In every reachable state, a click on the marker at position \<open>k\<close> of the
  point layer leaves the store with exactly the point at index \<open>k\<close> removed and nothing
  added: the circle's listener stops the propagation, so the listener of the \<open>svg\<close>
  element does not run. The point removed is the one the clicked marker is drawn at.
\<close>

theorem marker_click_removes_only:
  assumes "reachable eng width height s"
    and "k < length (markers s)"
  shows "points (click eng width height (OnCircle k) xy s) =
           take k (points s) @ drop (Suc k) (points s)
         \<and> length (points (click eng width height (OnCircle k) xy s)) + 1 = length (points s)
         \<and> points s ! k = (c_cx (markers s ! k), c_cy (markers s ! k))"
proof -
  have m: "markers s = rendered_markers (points s)" using assms(1) by (rule reachable_markers)
  have k: "k < length (points s)" using assms(2) m by simp
  have i: "index (c_datum (markers s ! k)) = k" unfolding m by (simp add: nth_rendered_markers k)
  have c: "points s ! k = (c_cx (markers s ! k), c_cy (markers s ! k))"
    unfolding m by (simp add: nth_rendered_markers k)
  show ?thesis
    unfolding click_circle[OF assms(2)] i
    using k c by (simp add: splice1_def)
qed

text \<open>Two points are added, then the marker of the first is clicked.\<close>

theorem marker_click_removes_only_witness:
  "points (click two_halves 800 600 (OnCircle 0) (200, 300)
             (click two_halves 800 600 OnCanvas (600, 300)
                (click two_halves 800 600 OnCanvas (200, 300) initial))) = [(600, 300)]"
proof -
  let ?s = "click two_halves 800 600 OnCanvas (600, 300)
              (click two_halves 800 600 OnCanvas (200, 300) initial)"
  have r: "reachable two_halves 800 600 ?s"
    by (intro reachable.clicked reachable.start)
  have p: "points ?s = [(200, 300), (600, 300)]"
    by (simp add: click_canvas initial_def)
  have k: "0 < length (markers ?s)"
    unfolding reachable_markers[OF r] p by simp
  show ?thesis
    using marker_click_removes_only[OF r k, of "(200, 300)"] p by simp
qed

section \<open>Adding a point and removing it again\<close>

text \<open>
  Claim C8. From every reachable state, a click on the canvas followed by a click on
  the marker of the new point (the marker at the last index, bound to the datum with
  that index) gives back the store, the rendered regions with their outlines and
  colours, and the rendered markers of the state before.
\<close>

theorem add_then_remove_round_trip:
  assumes "reachable eng width height s"
  shows "c_datum (markers (click eng width height OnCanvas p s) ! length (points s)) =
           \<lparr>point = p, index = length (points s)\<rparr>
         \<and> points (click eng width height (OnCircle (length (points s))) q
                     (click eng width height OnCanvas p s)) = points s
         \<and> cells (click eng width height (OnCircle (length (points s))) q
                     (click eng width height OnCanvas p s)) = cells s
         \<and> markers (click eng width height (OnCircle (length (points s))) q
                     (click eng width height OnCanvas p s)) = markers s"
proof -
  let ?s1 = "click eng width height OnCanvas p s"
  let ?n = "length (points s)"
  have r1: "reachable eng width height ?s1" using assms by (rule reachable.clicked)
  have p1: "points ?s1 = points s @ [p]" by (simp add: click_canvas)
  have m1: "markers ?s1 = rendered_markers (points s @ [p])"
    using reachable_markers[OF r1] p1 by simp
  have k: "?n < length (markers ?s1)" unfolding m1 by simp
  have d: "c_datum (markers ?s1 ! ?n) = \<lparr>point = p, index = ?n\<rparr>"
    unfolding m1 by (simp add: nth_rendered_markers)
  have s2: "click eng width height (OnCircle ?n) q ?s1 =
              drawVoronoi eng width height (?s1\<lparr>points := points s\<rparr>)"
    unfolding click_circle[OF k] d p1 by (simp add: splice1_def)
  show ?thesis
    unfolding s2 redraw_cells[OF r1] redraw_markers[OF r1]
    using d reachable_cells[OF assms] reachable_markers[OF assms] by simp
qed

text \<open>One point is on the canvas; a second is added and removed.\<close>

theorem add_then_remove_round_trip_witness:
  "points (click two_halves 800 600 (OnCircle 1) (0, 0)
             (click two_halves 800 600 OnCanvas (600, 300)
                (click two_halves 800 600 OnCanvas (200, 300) initial))) = [(200, 300)]
   \<and> cells (click two_halves 800 600 (OnCircle 1) (0, 0)
             (click two_halves 800 600 OnCanvas (600, 300)
                (click two_halves 800 600 OnCanvas (200, 300) initial))) =
       cells (click two_halves 800 600 OnCanvas (200, 300) initial)"
proof -
  let ?s = "click two_halves 800 600 OnCanvas (200, 300) initial"
  have r: "reachable two_halves 800 600 ?s"
    by (intro reachable.clicked reachable.start)
  have p: "points ?s = [(200, 300)]"
    by (simp add: click_canvas initial_def)
  show ?thesis
    using add_then_remove_round_trip[OF r, of "(600, 300)" "(0, 0)"] p by simp
qed

section \<open>Adding a point\<close>



section \<open>The exported document\<close>

lemma starts_with_append: "starts_with lit (lit @ r)"
  by (induction lit) simp_all

lemma starts_with_split: "starts_with p s \<Longrightarrow> s = p @ drop (length p) s"
  by (induction p s rule: starts_with.induct) simp_all

lemma scan_tag_here: "scan_tag lit (lit @ r)"
proof (cases "lit @ r")
  case Nil
  then show ?thesis by simp
next
  case (Cons c cs)
  have "starts_with lit (lit @ r)" by (rule starts_with_append)
  then have "starts_with lit (c # cs)" unfolding Cons .
  then show ?thesis unfolding Cons by simp
qed

lemma scan_tag_skip:
  "scan_tag lit cs \<Longrightarrow> CHR ''>'' \<notin> set pre \<Longrightarrow> scan_tag lit (pre @ cs)"
  by (induction pre) auto

lemma match_root_injected: "match_root lit (''<svg '' @ lit @ r)"
  by (simp add: match_root_def scan_tag_here)

lemma match_root_kept:
  assumes "match_root lit s" and "CHR ''>'' \<notin> set a"
  shows "match_root lit (''<svg '' @ a @ drop 4 s)"
proof -
  obtain c cs where d: "drop 4 s = c # cs" and c: "c \<noteq> CHR ''>''" and t: "scan_tag lit cs"
    using assms(1) by (auto simp add: match_root_def split: list.splits)
  have "scan_tag lit ((a @ [c]) @ cs)"
    using t by (rule scan_tag_skip) (use assms(2) c in auto)
  then show ?thesis by (simp add: match_root_def d)
qed

lemma xlink_attr_no_gt: "CHR ''>'' \<notin> set xlink_ns_attr"
  by (simp add: xlink_ns_attr_def)

lemma match_root_starts: "match_root lit s \<Longrightarrow> starts_with ''<svg'' s"
  by (simp add: match_root_def)

lemma scan_tag_suffix:
  "scan_tag (a @ q) cs \<Longrightarrow> CHR ''>'' \<notin> set a \<Longrightarrow> scan_tag q cs"
proof (induction cs)
  case Nil
  then show ?case by simp
next
  case (Cons c cs)
  show ?case
  proof (cases "starts_with (a @ q) (c # cs)")
    case True
    then have "c # cs = (a @ q) @ drop (length (a @ q)) (c # cs)" by (rule starts_with_split)
    then have e: "c # cs = a @ (q @ drop (length (a @ q)) (c # cs))" by simp
    have "scan_tag q (a @ (q @ drop (length (a @ q)) (c # cs)))"
      using scan_tag_here Cons.prems(2) by (rule scan_tag_skip)
    then show ?thesis using e by simp
  next
    case False
    then have "c \<noteq> CHR ''>''" and "scan_tag (a @ q) cs" using Cons.prems(1) by simp_all
    then show ?thesis using Cons.IH Cons.prems(2) by simp
  qed
qed

lemma declared_quoted:
  assumes "match_root xlink_ns_attr s"
  shows "match_root xlink_uri_quoted s"
proof -
  have x: "xlink_ns_attr = ''xmlns:xlink='' @ xlink_uri_quoted"
    by (simp add: xlink_ns_attr_def xlink_uri_quoted_def)
  obtain c cs where d: "drop 4 s = c # cs" and c: "c \<noteq> CHR ''>''"
      and t: "scan_tag (''xmlns:xlink='' @ xlink_uri_quoted) cs"
    using assms unfolding x by (auto simp add: match_root_def split: list.splits)
  have "scan_tag xlink_uri_quoted cs" using t by (rule scan_tag_suffix) simp
  then show ?thesis using assms d c by (simp add: match_root_def)
qed

lemma svg_attr_no_gt: "CHR ''>'' \<notin> set svg_ns_attr"
  by (simp add: svg_ns_attr_def)

lemma scan_past_svg_attr:
  assumes "c = CHR '' '' \<or> c = CHR ''>'' \<or> c = CHR ''/''"
  shows "scan_tag xlink_uri_quoted (svg_ns_attr @ c # cs) = (c \<noteq> CHR ''>'' \<and> scan_tag xlink_uri_quoted cs)"
  using assms by (auto simp add: svg_ns_attr_def xlink_uri_quoted_def)

lemma quoted_after_svg_injection:
  assumes "svg_root s"
  shows "match_root xlink_uri_quoted (''<svg '' @ svg_ns_attr @ drop 4 s) = match_root xlink_uri_quoted s"
proof -
  obtain c cs where d: "drop 4 s = c # cs" and c: "c = CHR '' '' \<or> c = CHR ''>'' \<or> c = CHR ''/''"
    and st: "starts_with ''<svg'' s"
    using assms by (auto simp add: svg_root_def split: list.splits)
  show ?thesis
    using st by (simp add: match_root_def d scan_past_svg_attr[OF c])
qed

lemma svg_root_starts: "svg_root s \<Longrightarrow> starts_with ''<svg'' s"
  by (simp add: svg_root_def)

text \<open>
  Claim C9. The second test of the listener looks for the quoted xlink URI in the root
  tag, under whatever attribute name; in a serialized canvas the URI is quoted there
  only where \<open>xmlns:xlink\<close> declares it, which is the second hypothesis. For every such
  serialized string with root element \<open>svg\<close>: the exported document is the XML
  declaration followed by the source with the namespaces added; the root tag of that
  source contains \<open>xmlns="http://www.w3.org/2000/svg"\<close> and
  \<open>xmlns:xlink="http://www.w3.org/1999/xlink"\<close>; and each of the two is put in, right
  after \<open><svg\<close>, exactly when the root tag of the serialized string did not contain
  it, so that a source that has a declaration is not given it a second time.
\<close>

theorem export_document_namespaces:
  assumes "svg_root serialized"
    and "match_root xlink_uri_quoted serialized \<longrightarrow> match_root xlink_ns_attr serialized"
  shows "exportDocument serialized = xml_declaration @ addNamespaces serialized
         \<and> match_root svg_ns_attr (addNamespaces serialized)
         \<and> match_root xlink_ns_attr (addNamespaces serialized)
         \<and> addNamespaces serialized =
             (if match_root svg_ns_attr serialized
              then (if match_root xlink_ns_attr serialized
                    then serialized
                    else ''<svg '' @ xlink_ns_attr @ drop 4 serialized)
              else (if match_root xlink_ns_attr serialized
                    then ''<svg '' @ svg_ns_attr @ drop 4 serialized
                    else ''<svg '' @ xlink_ns_attr @ '' '' @ svg_ns_attr @ drop 4 serialized))"
proof -
  define s1 where "s1 = (if \<not> match_root svg_ns_attr serialized
                         then replace_root (''<svg '' @ svg_ns_attr) serialized else serialized)"
  have st: "starts_with ''<svg'' serialized" using assms(1) by (rule svg_root_starts)
  have a: "addNamespaces serialized =
             (if \<not> match_root xlink_uri_quoted s1
              then replace_root (''<svg '' @ xlink_ns_attr) s1 else s1)"
    by (simp add: addNamespaces_def s1_def Let_def)
  have s1': "s1 = (if match_root svg_ns_attr serialized then serialized
                   else ''<svg '' @ svg_ns_attr @ drop 4 serialized)"
    using st by (simp add: s1_def replace_root_def)
  have q: "match_root xlink_uri_quoted serialized = match_root xlink_ns_attr serialized"
    using assms(2) declared_quoted by blast
  have q1: "match_root xlink_uri_quoted s1 = match_root xlink_ns_attr serialized"
    using quoted_after_svg_injection[OF assms(1)] q by (simp add: s1')
  have m1: "match_root svg_ns_attr s1"
    using match_root_injected[of svg_ns_attr "drop 4 serialized"] by (simp add: s1')
  have st1: "starts_with ''<svg'' s1" using m1 by (rule match_root_starts)
  have x1: "match_root xlink_ns_attr serialized \<Longrightarrow> match_root xlink_ns_attr s1"
    using match_root_kept[of xlink_ns_attr serialized svg_ns_attr, OF _ svg_attr_no_gt]
    by (simp add: s1')
  have a': "addNamespaces serialized =
              (if match_root xlink_ns_attr serialized then s1
               else ''<svg '' @ xlink_ns_attr @ drop 4 s1)"
    using st1 by (simp add: a q1 replace_root_def)
  have b: "match_root svg_ns_attr (addNamespaces serialized)"
    using m1 match_root_kept[OF m1 xlink_attr_no_gt] by (simp add: a')
  have c: "match_root xlink_ns_attr (addNamespaces serialized)"
    using x1 match_root_injected[of xlink_ns_attr "drop 4 s1"] by (simp add: a')
  have d: "addNamespaces serialized =
             (if match_root svg_ns_attr serialized
              then (if match_root xlink_ns_attr serialized
                    then serialized
                    else ''<svg '' @ xlink_ns_attr @ drop 4 serialized)
              else (if match_root xlink_ns_attr serialized
                    then ''<svg '' @ svg_ns_attr @ drop 4 serialized
                    else ''<svg '' @ xlink_ns_attr @ '' '' @ svg_ns_attr @ drop 4 serialized))"
    by (simp add: a' s1')
  show ?thesis using b c d by (simp add: exportDocument_def)
qed

text \<open>
  The canvas as serialized gets only the xlink declaration; a root element that has
  only the xlink declaration gets only the svg declaration.
\<close>

theorem export_document_namespaces_witness:
  \<open>exportDocument canvas_source =
     ''<?xml version="1.0" standalone="no"?>'' @ [CHR 0x0D, CHR 0x0A] @
     ''<svg xmlns:xlink="http://www.w3.org/1999/xlink" xmlns="http://www.w3.org/2000/svg" id="voronoiCanvas" width="800" height="600"></svg>''
   \<and> exportDocument xlink_only_source =
     ''<?xml version="1.0" standalone="no"?>'' @ [CHR 0x0D, CHR 0x0A] @
     ''<svg xmlns="http://www.w3.org/2000/svg" xmlns:xlink="http://www.w3.org/1999/xlink"></svg>''\<close>
proof -
  have r: "svg_root canvas_source" by (simp add: svg_root_def canvas_source_def)
  have m1: "match_root svg_ns_attr canvas_source"
    by (simp add: match_root_def svg_ns_attr_def canvas_source_def)
  have m2: "\<not> match_root xlink_uri_quoted canvas_source"
    by (simp add: match_root_def xlink_uri_quoted_def canvas_source_def)
  have m3: "\<not> match_root xlink_ns_attr canvas_source"
    by (simp add: match_root_def xlink_ns_attr_def canvas_source_def)
  have h: "match_root xlink_uri_quoted canvas_source \<longrightarrow> match_root xlink_ns_attr canvas_source"
    using m2 by simp
  have r': "svg_root xlink_only_source" by (simp add: svg_root_def xlink_only_source_def)
  have n1: "\<not> match_root svg_ns_attr xlink_only_source"
    by (simp add: match_root_def svg_ns_attr_def xlink_only_source_def)
  have n2: "match_root xlink_uri_quoted xlink_only_source"
    by (simp add: match_root_def xlink_uri_quoted_def xlink_only_source_def)
  have n3: "match_root xlink_ns_attr xlink_only_source"
    by (simp add: match_root_def xlink_ns_attr_def xlink_only_source_def)
  have h': "match_root xlink_uri_quoted xlink_only_source \<longrightarrow> match_root xlink_ns_attr xlink_only_source"
    using n3 by simp
  have w1: "exportDocument canvas_source =
              xml_declaration @ ''<svg '' @ xlink_ns_attr @ drop 4 canvas_source"
    using export_document_namespaces[OF r h] m1 m3 by simp
  have w2: "exportDocument xlink_only_source =
              xml_declaration @ ''<svg '' @ svg_ns_attr @ drop 4 xlink_only_source"
    using export_document_namespaces[OF r' h'] n1 n3 by simp
  show ?thesis
    unfolding w1 w2
    by (simp add: xml_declaration_def xlink_ns_attr_def svg_ns_attr_def canvas_source_def
        xlink_only_source_def)
qed

end
